theory Spec2Isabelle
  imports Main
begin

section \<open>Data model of the refactored slideshow (src/src/photo-slideshow.js)\<close>

text \<open>
  An image descriptor as the configuration supplies it. The slideshow class reads
  only \<open>url\<close>.
\<close>

record image =
  url :: string
  width :: nat
  height :: nat

text \<open>
  The display surface (class Viewer, file viewer.js) is used by the slideshow through
  \<open>showIndex\<close>, \<open>nextIndex\<close>, \<open>previousIndex\<close>, \<open>preload\<close>, \<open>cancelPreload\<close>,
  \<open>showPreloaded\<close> and \<open>showCaption\<close>. Indices are array positions; \<open>showIndex\<close> is
  \<open>null\<close> (here \<open>None\<close>) before the first image is shown.
\<close>

record viewer =
  showIndex :: "nat option"
  preloading :: "(image \<times> nat) option"
  showCaption :: bool

text \<open>
  Modelled from the spec: viewer.js is missing. \<open>preload(item, index)\<close> begins preparing
  the item and records it as the pending one.
\<close>

definition viewer_preload :: "viewer \<Rightarrow> image \<Rightarrow> nat \<Rightarrow> viewer" where
  "viewer_preload v item index = v\<lparr>preloading := Some (item, index)\<rparr>"

text \<open>
  Modelled from the spec: viewer.js is missing. \<open>cancelPreload()\<close> aborts an in-flight
  preparation.
\<close>

definition viewer_cancelPreload :: "viewer \<Rightarrow> viewer" where
  "viewer_cancelPreload v = v\<lparr>preloading := None\<rparr>"

text \<open>
  Modelled from the spec: viewer.js is missing. \<open>showPreloaded()\<close> promotes the most
  recently prepared item to the visible slot: the current index becomes the pending index
  and the pending index is cleared (as \<open>showNext\<close> of the monolithic version does with
  \<open>this.index = this.preloadIndex; this.preloadIndex = null\<close>).
\<close>

definition viewer_showPreloaded :: "viewer \<Rightarrow> viewer" where
  "viewer_showPreloaded v =
     v\<lparr>showIndex := map_option snd (preloading v), preloading := None\<rparr>"

text \<open>
  Modelled from the spec: viewer.js is missing. The "next" index is the current index
  plus one, the "previous" index the current index minus one; on a \<open>null\<close> current index
  JavaScript's arithmetic gives \<open>null + 1 = 1\<close> and \<open>null - 1 = -1\<close>.
\<close>

definition viewer_nextIndex :: "viewer \<Rightarrow> int" where
  "viewer_nextIndex v = (case showIndex v of None \<Rightarrow> 1 | Some i \<Rightarrow> int i + 1)"

definition viewer_previousIndex :: "viewer \<Rightarrow> int" where
  "viewer_previousIndex v = (case showIndex v of None \<Rightarrow> - 1 | Some i \<Rightarrow> int i - 1)"

text \<open>
  \<open>this.images\<close> is a reference: after \<open>configLoaded\<close> it is the very array
  \<open>this.config.images\<close>, in focus mode it is a fresh array built by \<open>filter\<close>.
  \<open>splice\<close> mutates the array in place, so the aliasing is part of the state.
\<close>

datatype images_ref = ConfigImages | Own "image list"

text \<open>
  The fields of PhotoSlideshow once the configuration has loaded. A live timer
  (\<open>showNextTimeout\<close>) is kept as the delay it was scheduled with; its callback is always
  \<open>showPreloaded\<close>. \<open>previousShow\<close> is a Date (milliseconds) or \<open>null\<close>.
\<close>

record state =
  config_images :: "image list"
  imagesRef :: images_ref
  helpShown :: bool
  notes_list :: "string list"
  showNextTimeout :: "int option"
  paused :: bool
  previousShow :: "int option"
  timeout :: int
  viewer :: viewer

definition images :: "state \<Rightarrow> image list" where
  "images s = (case imagesRef s of ConfigImages \<Rightarrow> config_images s | Own xs \<Rightarrow> xs)"

definition set_images :: "state \<Rightarrow> image list \<Rightarrow> state" where
  \<comment> \<open>an in-place mutation of the array \<open>this.images\<close> refers to\<close>
  "set_images s xs =
     (case imagesRef s of
        ConfigImages \<Rightarrow> s\<lparr>config_images := xs\<rparr>
      | Own _ \<Rightarrow> s\<lparr>imagesRef := Own xs\<rparr>)"

definition MINIMUM_TIMEOUT :: int where
  "MINIMUM_TIMEOUT = 500"

text \<open>
  Reading a property of \<open>undefined\<close> throws a TypeError. An event handler that throws
  leaves the object as it was at the throw.
\<close>

datatype error = TypeError

datatype 's outcome = Returned 's | Threw error 's

fun final :: "'s outcome \<Rightarrow> 's" where
  "final (Returned s) = s"
| "final (Threw e s) = s"

fun and_then :: "'s outcome \<Rightarrow> ('s \<Rightarrow> 's outcome) \<Rightarrow> 's outcome" where
  "and_then (Returned s) f = f s"
| "and_then (Threw e s) f = Threw e s"

text \<open>\<open>xs[i]\<close> of JavaScript: \<open>undefined\<close> outside the array.\<close>

definition at_index :: "'a list \<Rightarrow> int \<Rightarrow> 'a option" where
  "at_index xs i = (if 0 \<le> i \<and> i < int (length xs) then Some (xs ! nat i) else None)"

text \<open>\<open>xs.findIndex(p)\<close>: the first position where \<open>p\<close> holds, or \<open>-1\<close>.\<close>

fun findIndex_from :: "('a \<Rightarrow> bool) \<Rightarrow> 'a list \<Rightarrow> int \<Rightarrow> int" where
  "findIndex_from p [] k = - 1"
| "findIndex_from p (x # xs) k = (if p x then k else findIndex_from p xs (k + 1))"

definition findIndex :: "('a \<Rightarrow> bool) \<Rightarrow> 'a list \<Rightarrow> int" where
  "findIndex p xs = findIndex_from p xs 0"

text \<open>\<open>xs.splice(i, 1)\<close> for \<open>0 \<le> i\<close>: drops the element at \<open>i\<close>, if there is one.\<close>

definition splice1 :: "'a list \<Rightarrow> nat \<Rightarrow> 'a list" where
  "splice1 xs i = take i xs @ drop (Suc i) xs"

text \<open>\<open>u.startsWith(p)\<close>.\<close>

fun startsWith :: "string \<Rightarrow> string \<Rightarrow> bool" where
  "startsWith u [] = True"
| "startsWith [] (c # p) = False"
| "startsWith (d # u) (c # p) = (d = c \<and> startsWith u p)"

text \<open>
  \<open>u.replace(/\/[^/]*$/, '')\<close>: the first position, from the left, where a \<open>/\<close> is
  followed only by characters other than \<open>/\<close> up to the end; the match, which runs to the
  end, is deleted. Without such a position the string is returned as it is.
\<close>

fun strip_last_segment :: "string \<Rightarrow> string" where
  "strip_last_segment [] = []"
| "strip_last_segment (c # cs) =
     (if c = CHR ''/'' \<and> CHR ''/'' \<notin> set cs then [] else c # strip_last_segment cs)"

section \<open>Operations\<close>

definition currentImage :: "state \<Rightarrow> image option" where
  "currentImage s =
     (case showIndex (viewer s) of
        None \<Rightarrow> None
      | Some index \<Rightarrow> at_index (images s) (int index))"

definition inFocusMode :: "state \<Rightarrow> bool" where
  "inFocusMode s = (imagesRef s \<noteq> ConfigImages)"

definition stopTimeout :: "state \<Rightarrow> state" where
  "stopTimeout s = (if showNextTimeout s \<noteq> None then s\<lparr>showNextTimeout := None\<rparr> else s)"

definition preload :: "state \<Rightarrow> int \<Rightarrow> state outcome" where
  "preload s index =
     (let s1 = stopTimeout s in
      case at_index (images s1) index of
        None \<Rightarrow> Threw TypeError s1
      | Some next \<Rightarrow> Returned (s1\<lparr>viewer := viewer_preload (viewer s1) next (nat index)\<rparr>))"

definition showPreloadingImageImmediatly :: "state \<Rightarrow> state" where
  "showPreloadingImageImmediatly s = s\<lparr>previousShow := None\<rparr>"

text \<open>
  The state once the constructor has run and \<open>configLoaded\<close> has copied the
  configuration's images and timeout, and \<open>configLoaded\<close> itself.
\<close>

definition loaded :: "image list \<Rightarrow> int \<Rightarrow> state" where
  "loaded imgs t =
     \<lparr>config_images = imgs, imagesRef = ConfigImages, helpShown = False, notes_list = [],
      showNextTimeout = None, paused = False, previousShow = None, timeout = t,
      viewer = \<lparr>showIndex = None, preloading = None, showCaption = False\<rparr>\<rparr>"

definition configLoaded :: "image list \<Rightarrow> int \<Rightarrow> state outcome" where
  "configLoaded imgs t = preload (loaded imgs t) 0"

definition wrap_next :: "int \<Rightarrow> nat \<Rightarrow> int" where
  "wrap_next nextIndex len = (if nextIndex \<ge> int len then 0 else nextIndex)"

definition wrap_previous :: "int \<Rightarrow> nat \<Rightarrow> int" where
  "wrap_previous previousIndex len = (if previousIndex < 0 then int len - 1 else previousIndex)"

definition previous :: "state \<Rightarrow> state outcome" where
  "previous s = preload s (wrap_previous (viewer_previousIndex (viewer s)) (length (images s)))"

definition next' :: "state \<Rightarrow> state outcome" where
  "next' s = preload s (wrap_next (viewer_nextIndex (viewer s)) (length (images s)))"

text \<open>
  \<open>removeImage(index)\<close>: \<open>!index\<close> holds for \<open>null\<close> and for \<open>0\<close>.
\<close>

definition removeImage :: "state \<Rightarrow> nat option \<Rightarrow> state" where
  "removeImage s index =
     (case index of
        None \<Rightarrow> s
      | Some i \<Rightarrow>
          if i = 0 then s
          else if int i > int (length (images s)) - 1 then s
          else if length (images s) = 1 then s
          else set_images s (splice1 (images s) i))"

text \<open>
  \<open>addNote()\<close>: \<open>image.url\<close> throws when \<open>this.images[index]\<close> is \<open>undefined\<close>.
\<close>

definition addNote :: "state \<Rightarrow> state outcome" where
  "addNote s =
     (case showIndex (viewer s) of
        None \<Rightarrow> Returned s
      | Some index \<Rightarrow>
          (case at_index (images s) (int index) of
             None \<Rightarrow> Threw TypeError s
           | Some img \<Rightarrow>
               let exists = findIndex (\<lambda>u. u = url img) (notes_list s) in
               if exists \<noteq> - 1 then Returned s
               else Returned (s\<lparr>notes_list := notes_list s @ [url img]\<rparr>)))"

definition goToNext :: "state \<Rightarrow> state outcome" where
  "goToNext s = next' (showPreloadingImageImmediatly (stopTimeout s))"

definition goToPrevious :: "state \<Rightarrow> state outcome" where
  "goToPrevious s = previous (showPreloadingImageImmediatly s)"

text \<open>
  \<open>removeCurrent()\<close> computes \<open>nextIndex\<close> and then calls \<open>this.preload(index)\<close>, with
  the index it read from the viewer; \<open>this.images[null]\<close> is \<open>undefined\<close>.
\<close>

definition removeCurrent :: "state \<Rightarrow> state outcome" where
  "removeCurrent s =
     (let s1 = stopTimeout s;
          index = showIndex (viewer s1);
          s2 = removeImage s1 index;
          s3 = showPreloadingImageImmediatly s2
      in case index of
           None \<Rightarrow> Threw TypeError (stopTimeout s3)
         | Some i \<Rightarrow> preload s3 (int i))"

definition resetNotes :: "state \<Rightarrow> state" where
  "resetNotes s = s\<lparr>notes_list := []\<rparr>"

definition slowDown :: "state \<Rightarrow> state" where
  "slowDown s = s\<lparr>timeout := timeout s + 500\<rparr>"

definition speedUp :: "state \<Rightarrow> state" where
  "speedUp s =
     (if timeout s \<le> MINIMUM_TIMEOUT then s else s\<lparr>timeout := timeout s - 500\<rparr>)"

definition toggleCaptions :: "state \<Rightarrow> state" where
  "toggleCaptions s =
     (if showCaption (viewer s) then s\<lparr>viewer := (viewer s)\<lparr>showCaption := False\<rparr>\<rparr>
      else s\<lparr>viewer := (viewer s)\<lparr>showCaption := True\<rparr>\<rparr>)"

definition toggleFocusMode :: "state \<Rightarrow> state outcome" where
  "toggleFocusMode s =
     (case currentImage s of
        None \<Rightarrow> Returned s
      | Some current \<Rightarrow>
          let s1 = stopTimeout s;
              s2 = s1\<lparr>viewer := viewer_cancelPreload (viewer s1)\<rparr>;
              s3 = (if inFocusMode s2 then s2\<lparr>imagesRef := ConfigImages\<rparr>
                    else let path = strip_last_segment (url current);
                             imgs = filter (\<lambda>i. startsWith (url i) path) (config_images s2)
                         in s2\<lparr>imagesRef := Own imgs\<rparr>);
              currentIndex = findIndex (\<lambda>i. url i = url current) (images s3);
              nextIndex = (if currentIndex = int (length (images s3)) - 1 then 0
                           else currentIndex + 1)
          in preload s3 nextIndex)"

definition toggleHelp :: "state \<Rightarrow> state" where
  "toggleHelp s = (if helpShown s then s\<lparr>helpShown := False\<rparr> else s\<lparr>helpShown := True\<rparr>)"

definition togglePause :: "state \<Rightarrow> state outcome" where
  "togglePause s =
     (if paused s then and_then (next' s) (\<lambda>s1. Returned (s1\<lparr>paused := False\<rparr>))
      else let s1 = stopTimeout s;
               s2 = s1\<lparr>viewer := viewer_cancelPreload (viewer s1)\<rparr>
           in Returned (s2\<lparr>paused := True\<rparr>))"

text \<open>
  \<open>showPreloaded()\<close>; \<open>shown\<close> is the clock read by \<open>new Date\<close>.
\<close>

definition showPreloaded :: "state \<Rightarrow> int \<Rightarrow> state outcome" where
  "showPreloaded s shown =
     (let s1 = s\<lparr>showNextTimeout := None\<rparr>;
          s2 = s1\<lparr>viewer := viewer_showPreloaded (viewer s1)\<rparr>;
          s3 = s2\<lparr>previousShow := Some shown\<rparr>
      in next' s3)"

text \<open>
  \<open>imageLoaded(image, index)\<close>; \<open>now\<close> is the clock read by \<open>new Date()\<close> in the
  handler, \<open>shown\<close> the one \<open>showPreloaded\<close> reads when it is called at once. A Date
  object is truthy, so \<open>!this.previousShow\<close> holds for \<open>null\<close> only.
\<close>

definition imageLoaded :: "state \<Rightarrow> image \<Rightarrow> nat \<Rightarrow> int \<Rightarrow> int \<Rightarrow> state outcome" where
  "imageLoaded s img index now shown =
     (let s1 = stopTimeout s in
      case previousShow s1 of
        None \<Rightarrow> showPreloaded s1 shown
      | Some prev \<Rightarrow>
          let elapsed = now - prev;
              remainder = timeout s1 - elapsed
          in if remainder < 0 then showPreloaded s1 shown
             else Returned (s1\<lparr>showNextTimeout := Some remainder\<rparr>))"

definition imageFailed :: "state \<Rightarrow> image \<Rightarrow> nat \<Rightarrow> state outcome" where
  "imageFailed s img index =
     (let s1 = s\<lparr>notes_list := notes_list s @ [''Missing '' @ url img]\<rparr>;
          s2 = removeImage s1 (Some index);
          nextIndex = (if index = length (images s2) then 0 else int index);
          s3 = showPreloadingImageImmediatly s2
      in preload s3 nextIndex)"

section \<open>The machine: one handler per event, run to completion\<close>

text \<open>
  The key commands registered by \<open>setupKeyWatcher\<close>, the two viewer events and the firing
  of the timer. \<open>l\<close> shows the notes in an alert, \<open>q\<close> and \<open>v\<close> change the logger's
  level: none of them writes a field of the slideshow. A timer that was cleared does not
  fire.
\<close>

datatype event =
    KeyC | KeyF | KeyDel | KeyH | KeyL | KeyLeft | KeyMinus | KeyN | KeyPlus | KeyQ
  | KeyR | KeyRight | KeySpace | KeyV
  | ImageLoaded image nat int int
  | ImageFailed image nat
  | TimerFired int

fun handle :: "state \<Rightarrow> event \<Rightarrow> state outcome" where
  "handle s KeyC = Returned (toggleCaptions s)"
| "handle s KeyF = toggleFocusMode s"
| "handle s KeyDel = removeCurrent s"
| "handle s KeyH = Returned (toggleHelp s)"
| "handle s KeyL = Returned s"
| "handle s KeyLeft = goToPrevious s"
| "handle s KeyMinus = Returned (slowDown s)"
| "handle s KeyN = addNote s"
| "handle s KeyPlus = Returned (speedUp s)"
| "handle s KeyQ = Returned s"
| "handle s KeyR = Returned (resetNotes s)"
| "handle s KeyRight = goToNext s"
| "handle s KeySpace = togglePause s"
| "handle s KeyV = Returned s"
| "handle s (ImageLoaded img index now shown) = imageLoaded s img index now shown"
| "handle s (ImageFailed img index) = imageFailed s img index"
| "handle s (TimerFired shown) =
     (if showNextTimeout s = None then Returned s else showPreloaded s shown)"

fun run :: "state \<Rightarrow> event list \<Rightarrow> state" where
  "run s [] = s"
| "run s (e # es) = run (final (handle s e)) es"

text \<open>The collection holds an image, and so does the configured one.\<close>

definition nonempty :: "state \<Rightarrow> bool" where
  "nonempty s = (config_images s \<noteq> [] \<and> images s \<noteq> [])"

text \<open>The viewer showing the image at a given position.\<close>

definition showing :: "state \<Rightarrow> nat \<Rightarrow> state" where
  "showing s i = s\<lparr>viewer := (viewer s)\<lparr>showIndex := Some i\<rparr>\<rparr>"

section \<open>The specification's wording of focus mode\<close>

text \<open>
  The specification's path prefix of a url: all characters up to and including the
  final \<open>/\<close>.
\<close>

fun spec_path_prefix :: "string \<Rightarrow> string" where
  "spec_path_prefix [] = []"
| "spec_path_prefix (c # cs) =
     (if CHR ''/'' \<in> set (c # cs) then c # spec_path_prefix cs else [])"

definition spec_focus_set :: "image \<Rightarrow> image list \<Rightarrow> image list" where
  "spec_focus_set reference imgs =
     filter (\<lambda>i. startsWith (url i) (spec_path_prefix (url reference))) imgs"

text \<open>The active set \<open>toggleFocusMode\<close> builds when it enters focus mode.\<close>

definition focus_set :: "image \<Rightarrow> image list \<Rightarrow> image list" where
  "focus_set current imgs =
     filter (\<lambda>i. startsWith (url i) (strip_last_segment (url current))) imgs"

section \<open>Concrete inputs\<close>

definition img_A :: image where
  "img_A = \<lparr>url = ''p/a.jpg'', width = 4, height = 3\<rparr>"

definition img_B :: image where
  "img_B = \<lparr>url = ''p/b.jpg'', width = 4, height = 3\<rparr>"

definition img_C :: image where
  "img_C = \<lparr>url = ''q/c.jpg'', width = 4, height = 3\<rparr>"

definition img_X :: image where
  "img_X = \<lparr>url = ''a/b/x.jpg'', width = 4, height = 3\<rparr>"

definition img_Y :: image where
  "img_Y = \<lparr>url = ''a/bc/y.jpg'', width = 4, height = 3\<rparr>"

definition abc :: state where
  "abc = loaded [img_A, img_B, img_C] 1000"

definition single :: state where
  "single = loaded [img_A] 1000"

definition xy :: state where
  "xy = showing (loaded [img_X, img_Y] 1000) 0"

definition paused_abc :: state where
  "paused_abc = (showing (loaded [img_A, img_B, img_C] 5000) 0)
                  \<lparr>paused := True, previousShow := Some 1000\<rparr>"

definition started :: state where
  "started = final (configLoaded [img_A, img_B, img_C] 1000)"

definition first_shown :: state where
  "first_shown = final (imageLoaded started img_A 0 0 0)"

section \<open>The monolithic version (src/photo-slideshow.js)\<close>

text \<open>
  The fields of the older PhotoSlideshow once \<open>loadConfig\<close> has resolved. The preloader
  and the visible \<open>img\<close> element are kept as the url they hold; the layout that
  \<open>showNext\<close> computes for the element is outside the state.
\<close>

record mono =
  m_images :: "image list"
  m_index :: "nat option"
  m_showNextTimeout :: "int option"
  m_preloadIndex :: "nat option"
  m_preloader_src :: "string option"
  m_img_src :: "string option"
  m_previousShow :: "int option"
  m_timeout :: int

definition DEFAULT_TIMEOUT :: int where
  "DEFAULT_TIMEOUT = 5000"

text \<open>
  \<open>loadConfig\<close>, given the images as \<open>shuffle\<close> returned them and the \<open>timeout\<close> entry
  of the configuration, if any: \<open>data.timeout || DEFAULT_TIMEOUT\<close> takes the default for
  a missing entry and for \<open>0\<close>.
\<close>

definition loadConfig :: "image list \<Rightarrow> int option \<Rightarrow> mono" where
  "loadConfig imgs t =
     \<lparr>m_images = imgs, m_index = None, m_showNextTimeout = None, m_preloadIndex = None,
      m_preloader_src = None, m_img_src = None, m_previousShow = None,
      m_timeout = (case t of None \<Rightarrow> DEFAULT_TIMEOUT
                   | Some x \<Rightarrow> if x = 0 then DEFAULT_TIMEOUT else x)\<rparr>"

definition mono_stopTimeout :: "mono \<Rightarrow> mono" where
  "mono_stopTimeout s =
     (if m_showNextTimeout s \<noteq> None then s\<lparr>m_showNextTimeout := None\<rparr> else s)"

definition mono_preload :: "mono \<Rightarrow> int \<Rightarrow> mono outcome" where
  "mono_preload s index =
     (let s1 = mono_stopTimeout s in
      case at_index (m_images s1) index of
        None \<Rightarrow> Threw TypeError s1
      | Some next \<Rightarrow>
          Returned (s1\<lparr>m_preloadIndex := Some (nat index), m_preloader_src := Some (url next)\<rparr>))"

text \<open>\<open>this.preload(this.index)\<close>: \<open>this.images[null]\<close> is \<open>undefined\<close>.\<close>

definition mono_preload_index :: "mono \<Rightarrow> mono outcome" where
  "mono_preload_index s =
     (case m_index s of
        None \<Rightarrow> Threw TypeError (mono_stopTimeout s)
      | Some i \<Rightarrow> mono_preload s (int i))"

definition mono_showPreloadingImageImmediatly :: "mono \<Rightarrow> mono" where
  "mono_showPreloadingImageImmediatly s = s\<lparr>m_previousShow := None\<rparr>"

definition mono_removeCurrent :: "mono \<Rightarrow> mono outcome" where
  "mono_removeCurrent s =
     (if length (m_images s) \<le> 1 then Returned s
      else case m_index s of
             None \<Rightarrow> Threw TypeError s
           | Some i \<Rightarrow>
               (case at_index (m_images s) (int i) of
                  None \<Rightarrow> Threw TypeError s
                | Some img \<Rightarrow>
                    let s1 = s\<lparr>m_images := splice1 (m_images s) i\<rparr> in
                    if i = length (m_images s1) + 1 then Returned (s1\<lparr>m_index := Some 0\<rparr>)
                    else Returned s1))"

definition start :: "mono \<Rightarrow> mono outcome" where
  "start s = mono_preload (s\<lparr>m_index := Some 0\<rparr>) 0"

text \<open>
  In \<open>previous\<close> and \<open>next\<close> a \<open>null\<close> index compares and adds as \<open>0\<close>.
\<close>

definition mono_previous :: "mono \<Rightarrow> mono outcome" where
  "mono_previous s =
     (let index = (case m_index s of None \<Rightarrow> 0 | Some i \<Rightarrow> int i);
          nextIndex = (if index < 1 then int (length (m_images s)) - 1 else index - 1)
      in mono_preload s nextIndex)"

definition mono_next :: "mono \<Rightarrow> mono outcome" where
  "mono_next s =
     (let index = (case m_index s of None \<Rightarrow> 0 | Some i \<Rightarrow> int i);
          nextIndex = (if index < int (length (m_images s)) - 1 then index + 1 else 0)
      in mono_preload s nextIndex)"

definition showNext :: "mono \<Rightarrow> int \<Rightarrow> mono outcome" where
  "showNext s shown =
     (let s1 = s\<lparr>m_index := m_preloadIndex s\<rparr>;
          s2 = s1\<lparr>m_preloadIndex := None\<rparr>
      in case m_index s2 of
           None \<Rightarrow> Threw TypeError s2
         | Some i \<Rightarrow>
             (case at_index (m_images s2) (int i) of
                None \<Rightarrow> Threw TypeError s2
              | Some img \<Rightarrow>
                  let s3 = s2\<lparr>m_showNextTimeout := None\<rparr>;
                      s4 = s3\<lparr>m_img_src := m_preloader_src s3\<rparr>;
                      s5 = s4\<lparr>m_previousShow := Some shown\<rparr>
                  in mono_next s5))"

definition mono_imageLoaded :: "mono \<Rightarrow> int \<Rightarrow> int \<Rightarrow> mono outcome" where
  "mono_imageLoaded s now shown =
     (case m_preloadIndex s of
        None \<Rightarrow> Threw TypeError s
      | Some p \<Rightarrow>
          (case at_index (m_images s) (int p) of
             None \<Rightarrow> Threw TypeError s
           | Some img \<Rightarrow>
               (case m_previousShow s of
                  None \<Rightarrow> showNext s shown
                | Some prev \<Rightarrow>
                    let elapsed = now - prev;
                        remainder = m_timeout s - elapsed
                    in if remainder < 0 then showNext s shown
                       else Returned (s\<lparr>m_showNextTimeout := Some remainder\<rparr>))))"

definition mono_imageFailed :: "mono \<Rightarrow> mono outcome" where
  "mono_imageFailed s =
     (case m_index s of
        None \<Rightarrow> Threw TypeError s
      | Some i \<Rightarrow>
          (case at_index (m_images s) (int i) of
             None \<Rightarrow> Threw TypeError s
           | Some img \<Rightarrow>
               and_then (mono_removeCurrent s)
                 (\<lambda>s1. mono_preload_index (mono_showPreloadingImageImmediatly s1))))"

text \<open>\<open>keydown(evt)\<close>, by \<open>evt.keyCode\<close>; \<open>q\<close> (81) and \<open>v\<close> (86) only reach the logger.\<close>

definition keydown :: "mono \<Rightarrow> nat \<Rightarrow> mono outcome" where
  "keydown s keyCode =
     (if keyCode = 32 then
        (if m_showNextTimeout s \<noteq> None then Returned (mono_stopTimeout s)
         else mono_preload_index (mono_showPreloadingImageImmediatly s))
      else if keyCode = 37 then mono_previous (mono_showPreloadingImageImmediatly s)
      else if keyCode = 39 then mono_next (mono_showPreloadingImageImmediatly s)
      else if keyCode = 46 then
        and_then (mono_removeCurrent (mono_stopTimeout s))
          (\<lambda>s1. mono_preload_index (mono_showPreloadingImageImmediatly s1))
      else if keyCode = 61 then
        (if m_timeout s \<le> MINIMUM_TIMEOUT then Returned s
         else Returned (s\<lparr>m_timeout := m_timeout s - 500\<rparr>))
      else if keyCode = 173 then Returned (s\<lparr>m_timeout := m_timeout s + 500\<rparr>)
      else Returned s)"

definition mono_abc :: mono where
  "mono_abc = (loadConfig [img_A, img_B, img_C] (Some 700))\<lparr>m_index := Some 0\<rparr>"

section \<open>Frame lemmas\<close>

lemma images_set_images: "images (set_images s xs) = xs"
  by (simp add: images_def set_images_def split: images_ref.splits)

lemma images_stopTimeout: "images (stopTimeout s) = images s"
  by (simp add: images_def stopTimeout_def split: images_ref.splits)

lemma fields_stopTimeout:
  "config_images (stopTimeout s) = config_images s"
  "imagesRef (stopTimeout s) = imagesRef s"
  "showNextTimeout (stopTimeout s) = None"
  "viewer (stopTimeout s) = viewer s"
  "previousShow (stopTimeout s) = previousShow s"
  "notes_list (stopTimeout s) = notes_list s"
  "timeout (stopTimeout s) = timeout s"
  "paused (stopTimeout s) = paused s"
  by (simp_all add: stopTimeout_def)

lemma final_preload:
  "images (final (preload s i)) = images s"
  "config_images (final (preload s i)) = config_images s"
  "imagesRef (final (preload s i)) = imagesRef s"
  "previousShow (final (preload s i)) = previousShow s"
  "notes_list (final (preload s i)) = notes_list s"
  "timeout (final (preload s i)) = timeout s"
  "showNextTimeout (final (preload s i)) = None"
  "showIndex (viewer (final (preload s i))) = showIndex (viewer s)"
  by (simp_all add: preload_def Let_def images_def stopTimeout_def viewer_preload_def
        split: option.splits images_ref.splits)

lemma preload_in_range:
  "0 \<le> i \<Longrightarrow> i < int (length (images s)) \<Longrightarrow>
   preload s i =
     Returned ((stopTimeout s)\<lparr>viewer := viewer_preload (viewer s) (images s ! nat i) (nat i)\<rparr>)"
  by (simp add: preload_def Let_def at_index_def images_stopTimeout fields_stopTimeout)

lemma removeImage_cases:
  "removeImage s idx = s \<or>
   (\<exists>i. idx = Some i \<and> 0 < i \<and> i < length (images s) \<and> 2 \<le> length (images s) \<and>
        removeImage s idx = set_images s (splice1 (images s) i))"
  by (cases idx) (auto simp: removeImage_def)

lemma length_splice1: "i < length xs \<Longrightarrow> length (splice1 xs i) = length xs - 1"
  by (simp add: splice1_def)

section \<open>Removal\<close>

text \<open>
  C10. \<open>removeImage\<close> with index \<open>0\<close>, or with a \<open>null\<close> index, returns the slideshow
  as it was, whatever the size of the collection (so also when it holds more than one
  image and \<open>0\<close> is in range); \<open>removeCurrent\<close>, which passes the viewer's index on,
  leaves the collection unchanged when the first image, or none, is showing.
\<close>

theorem removeImage_first_is_noop:
  "removeImage s None = s \<and> removeImage s (Some 0) = s \<and>
   images (final (removeCurrent (s\<lparr>viewer := (viewer s)\<lparr>showIndex := Some 0\<rparr>\<rparr>))) = images s \<and>
   images (final (removeCurrent (s\<lparr>viewer := (viewer s)\<lparr>showIndex := None\<rparr>\<rparr>))) = images s"
  by (simp add: removeImage_def removeCurrent_def Let_def final_preload
      showPreloadingImageImmediatly_def images_def stopTimeout_def split: images_ref.splits)

lemma images_frame:
  "config_images s' = config_images s \<Longrightarrow> imagesRef s' = imagesRef s \<Longrightarrow>
   images s' = images s"
  by (simp add: images_def split: images_ref.splits)

lemma images_showImmediately: "images (showPreloadingImageImmediatly s) = images s"
  by (rule images_frame) (simp_all add: showPreloadingImageImmediatly_def)

lemma nonempty_set_images: "nonempty s \<Longrightarrow> xs \<noteq> [] \<Longrightarrow> nonempty (set_images s xs)"
  by (simp add: nonempty_def images_def set_images_def split: images_ref.splits)

lemma splice1_nonempty: "2 \<le> length xs \<Longrightarrow> splice1 xs i \<noteq> []"
  by (cases "i = 0") (auto simp: splice1_def)

lemma nonempty_removeImage:
  assumes "nonempty s"
  shows "nonempty (removeImage s idx)"
  using removeImage_cases [of s idx]
proof
  assume "removeImage s idx = s"
  with assms show ?thesis by simp
next
  assume "\<exists>i. idx = Some i \<and> 0 < i \<and> i < length (images s) \<and> 2 \<le> length (images s) \<and>
        removeImage s idx = set_images s (splice1 (images s) i)"
  then obtain i where "2 \<le> length (images s)"
    and eq: "removeImage s idx = set_images s (splice1 (images s) i)"
    by blast
  then have "splice1 (images s) i \<noteq> []" by (simp add: splice1_nonempty)
  with assms eq show ?thesis by (simp add: nonempty_set_images)
qed

lemma images_removeCurrent:
  "images (final (removeCurrent s)) = images (removeImage (stopTimeout s) (showIndex (viewer s)))"
  by (simp add: removeCurrent_def Let_def final_preload fields_stopTimeout images_stopTimeout
      images_showImmediately split: option.splits)

section \<open>The collection never runs empty\<close>

lemma nonempty_frame:
  "config_images s' = config_images s \<Longrightarrow> imagesRef s' = imagesRef s \<Longrightarrow>
   nonempty s' = nonempty s"
  by (simp add: nonempty_def images_def split: images_ref.splits)

lemma nonempty_stopTimeout: "nonempty (stopTimeout s) = nonempty s"
  by (rule nonempty_frame) (simp_all add: fields_stopTimeout)

lemma nonempty_preload: "nonempty (final (preload s i)) = nonempty s"
  by (rule nonempty_frame) (simp_all add: final_preload)

lemma nonempty_next: "nonempty (final (next' s)) = nonempty s"
  by (simp add: next'_def nonempty_preload)

lemma nonempty_previous: "nonempty (final (previous s)) = nonempty s"
  by (simp add: previous_def nonempty_preload)

lemma nonempty_showImmediately: "nonempty (showPreloadingImageImmediatly s) = nonempty s"
  by (rule nonempty_frame) (simp_all add: showPreloadingImageImmediatly_def)

lemma nonempty_removeCurrent: "nonempty s \<Longrightarrow> nonempty (final (removeCurrent s))"
  by (simp add: removeCurrent_def Let_def nonempty_preload nonempty_showImmediately
        nonempty_stopTimeout nonempty_removeImage split: option.splits)

lemma nonempty_imageFailed: "nonempty s \<Longrightarrow> nonempty (final (imageFailed s img i))"
proof -
  assume a: "nonempty s"
  have "nonempty (s\<lparr>notes_list := notes_list s @ [''Missing '' @ url img]\<rparr>) = nonempty s"
    by (rule nonempty_frame) simp_all
  with a show ?thesis
    by (simp add: imageFailed_def Let_def nonempty_preload nonempty_showImmediately
        nonempty_removeImage)
qed

lemma nonempty_showPreloaded: "nonempty (final (showPreloaded s t)) = nonempty s"
proof -
  have "nonempty (s\<lparr>showNextTimeout := None, viewer := viewer_showPreloaded (viewer s),
          previousShow := Some t\<rparr>) = nonempty s"
    by (rule nonempty_frame) simp_all
  then show ?thesis
    by (simp add: showPreloaded_def Let_def nonempty_next)
qed

lemma nonempty_imageLoaded: "nonempty (final (imageLoaded s img i now t)) = nonempty s"
proof -
  have "\<And>r. nonempty ((stopTimeout s)\<lparr>showNextTimeout := Some r\<rparr>) = nonempty s"
    by (rule nonempty_frame) (simp_all add: fields_stopTimeout)
  then show ?thesis
    by (simp add: imageLoaded_def Let_def nonempty_showPreloaded nonempty_stopTimeout
        split: option.splits)
qed

lemma nonempty_addNote: "nonempty (final (addNote s)) = nonempty s"
proof -
  have "\<And>u. nonempty (s\<lparr>notes_list := notes_list s @ [u]\<rparr>) = nonempty s"
    by (rule nonempty_frame) simp_all
  then show ?thesis
    by (simp add: addNote_def Let_def split: option.splits)
qed

lemma nonempty_togglePause: "nonempty (final (togglePause s)) = nonempty s"
proof (cases "paused s")
  case True
  have "nonempty (final (and_then (next' s) (\<lambda>s1. Returned (s1\<lparr>paused := False\<rparr>))))
        = nonempty (final (next' s))"
    by (cases "next' s") (simp_all add: nonempty_def images_def split: images_ref.splits)
  with True show ?thesis by (simp add: togglePause_def nonempty_next)
next
  case False
  have "nonempty ((stopTimeout s)\<lparr>viewer := viewer_cancelPreload (viewer (stopTimeout s)),
           paused := True\<rparr>) = nonempty s"
    by (rule nonempty_frame) (simp_all add: fields_stopTimeout)
  with False show ?thesis by (simp add: togglePause_def Let_def)
qed

lemma startsWith_strip_last_segment: "startsWith u (strip_last_segment u)"
  by (induction u) auto

lemma currentImage_mem: "currentImage s = Some c \<Longrightarrow> c \<in> set (images s)"
  by (auto simp: currentImage_def at_index_def split: option.splits if_splits)

lemma focus_set_mem: "c \<in> set imgs \<Longrightarrow> c \<in> set (focus_set c imgs)"
  by (simp add: focus_set_def startsWith_strip_last_segment)

lemma toggleFocusMode_leave:
  assumes "currentImage s = Some c" "inFocusMode s"
  shows "\<exists>k. toggleFocusMode s =
           preload ((stopTimeout s)\<lparr>viewer := viewer_cancelPreload (viewer s),
                                   imagesRef := ConfigImages\<rparr>) k"
  using assms unfolding toggleFocusMode_def Let_def
  by (auto simp: inFocusMode_def fields_stopTimeout)

lemma toggleFocusMode_enter:
  assumes "currentImage s = Some c" "\<not> inFocusMode s"
  shows "\<exists>k. toggleFocusMode s =
           preload ((stopTimeout s)\<lparr>viewer := viewer_cancelPreload (viewer s),
                                   imagesRef := Own (focus_set c (config_images s))\<rparr>) k"
  using assms unfolding toggleFocusMode_def Let_def
  by (auto simp: inFocusMode_def fields_stopTimeout focus_set_def)

lemma nonempty_toggleFocusMode: "nonempty s \<Longrightarrow> nonempty (final (toggleFocusMode s))"
proof (cases "currentImage s")
  case None
  assume "nonempty s"
  with None show ?thesis by (simp add: toggleFocusMode_def)
next
  case (Some c)
  assume a: "nonempty s"
  show ?thesis
  proof (cases "inFocusMode s")
    case True
    from a have "nonempty ((stopTimeout s)\<lparr>viewer := viewer_cancelPreload (viewer s),
                                   imagesRef := ConfigImages\<rparr>)"
      by (simp add: nonempty_def images_def fields_stopTimeout)
    with toggleFocusMode_leave [OF Some True] show ?thesis
      by (auto simp: nonempty_preload)
  next
    case False
    then have "images s = config_images s"
      by (simp add: inFocusMode_def images_def)
    with Some have "c \<in> set (config_images s)"
      using currentImage_mem by fastforce
    then have "focus_set c (config_images s) \<noteq> []"
      using focus_set_mem by fastforce
    with a have "nonempty ((stopTimeout s)\<lparr>viewer := viewer_cancelPreload (viewer s),
                    imagesRef := Own (focus_set c (config_images s))\<rparr>)"
      by (simp add: nonempty_def images_def fields_stopTimeout)
    with toggleFocusMode_enter [OF Some False] show ?thesis
      by (auto simp: nonempty_preload)
  qed
qed

lemma nonempty_handle: "nonempty s \<Longrightarrow> nonempty (final (handle s e))"
proof (cases e)
  case KeyC
  assume "nonempty s" with KeyC show ?thesis
    by (simp add: toggleCaptions_def nonempty_def images_def split: images_ref.splits)
next
  case KeyH
  assume "nonempty s" with KeyH show ?thesis
    by (simp add: toggleHelp_def nonempty_def images_def split: images_ref.splits)
next
  case KeyMinus
  assume "nonempty s" with KeyMinus show ?thesis
    by (simp add: slowDown_def nonempty_def images_def split: images_ref.splits)
next
  case KeyPlus
  assume "nonempty s" with KeyPlus show ?thesis
    by (simp add: speedUp_def nonempty_def images_def split: images_ref.splits)
next
  case KeyR
  assume "nonempty s" with KeyR show ?thesis
    by (simp add: resetNotes_def nonempty_def images_def split: images_ref.splits)
next
  case (TimerFired t)
  assume "nonempty s" with TimerFired show ?thesis
    by (simp add: nonempty_showPreloaded)
qed (simp_all add: nonempty_toggleFocusMode nonempty_removeCurrent nonempty_addNote
       nonempty_togglePause nonempty_imageLoaded nonempty_imageFailed goToNext_def
       goToPrevious_def nonempty_next nonempty_previous nonempty_showImmediately
       nonempty_stopTimeout)

lemma nonempty_run: "nonempty s \<Longrightarrow> nonempty (run s es)"
  by (induction es arbitrary: s) (simp_all add: nonempty_handle)

lemma removeImage_single: "length (images s) = 1 \<Longrightarrow> removeImage s idx = s"
  by (cases idx) (auto simp: removeImage_def)

text \<open>
  C7. On a collection of one image \<open>removeImage\<close> returns the slideshow as it was,
  for every index, and \<open>removeCurrent\<close> leaves the collection as it was. A slideshow
  whose collection and configured collection hold an image keeps a non-empty collection
  through every sequence of events.
\<close>

theorem last_image_is_never_removed:
  "(length (images s) = 1 \<longrightarrow>
      removeImage s idx = s \<and> images (final (removeCurrent s)) = images s) \<and>
   (nonempty s \<longrightarrow> images (run s es) \<noteq> [])"
proof (intro conjI impI)
  assume "length (images s) = 1"
  then show "removeImage s idx = s" by (rule removeImage_single)
next
  assume one: "length (images s) = 1"
  then have "length (images (stopTimeout s)) = 1" by (simp add: images_stopTimeout)
  then have "removeImage (stopTimeout s) (showIndex (viewer s)) = stopTimeout s"
    by (rule removeImage_single)
  then show "images (final (removeCurrent s)) = images s"
    by (simp add: images_removeCurrent images_stopTimeout)
next
  assume "nonempty s"
  then have "nonempty (run s es)" by (rule nonempty_run)
  then show "images (run s es) \<noteq> []" by (simp add: nonempty_def)
qed

theorem last_image_is_never_removed_witness:
  "length (images single) = 1 \<and> nonempty single \<and>
   removeImage single (Some 0) = single \<and>
   images (final (removeCurrent single)) = images single \<and>
   images (run single [ImageFailed img_A 0, KeyDel]) \<noteq> []"
  using last_image_is_never_removed [of single "Some 0" "[ImageFailed img_A 0, KeyDel]"]
  by (simp add: single_def loaded_def images_def nonempty_def img_A_def)

section \<open>Recovery from a failed image, deletion, rate and pause\<close>

lemmas eval_defs =
  images_def set_images_def at_index_def splice1_def stopTimeout_def preload_def
  viewer_preload_def viewer_cancelPreload_def viewer_showPreloaded_def viewer_nextIndex_def
  viewer_previousIndex_def showPreloadingImageImmediatly_def loaded_def wrap_next_def
  wrap_previous_def next'_def previous_def removeImage_def removeCurrent_def imageFailed_def
  imageLoaded_def showPreloaded_def togglePause_def showing_def Let_def

lemma fields_set_images:
  "notes_list (set_images s xs) = notes_list s"
  "previousShow (set_images s xs) = previousShow s"
  "showNextTimeout (set_images s xs) = showNextTimeout s"
  "viewer (set_images s xs) = viewer s"
  "timeout (set_images s xs) = timeout s"
  "paused (set_images s xs) = paused s"
  by (simp_all add: set_images_def split: images_ref.splits)

lemma removeImage_inner:
  "0 < i \<Longrightarrow> i < length (images s) \<Longrightarrow>
   removeImage s (Some i) = set_images s (splice1 (images s) i)"
  by (auto simp: removeImage_def)

lemma images_imageFailed:
  "images (final (imageFailed s img i)) =
   images (removeImage (s\<lparr>notes_list := notes_list s @ [''Missing '' @ url img]\<rparr>) (Some i))"
  by (simp add: imageFailed_def Let_def final_preload images_showImmediately)

text \<open>
  C1, as amended. When \<open>imageFailed\<close> runs for an index that is neither the first nor
  out of range (so the collection holds at least two images), it returns, the image at
  that index is removed and the collection is one shorter, the note \<open>Missing <url>\<close> of
  the reported image is appended to the notes, \<open>previousShow\<close> and the timer are cleared,
  and the viewer is asked to preload index \<open>0\<close> if the failed index now equals the length
  of the collection and the same index otherwise. On a collection of one image nothing is
  removed.
\<close>

theorem imageFailed_recovers:
  "(0 < index \<and> index < length (images s) \<longrightarrow>
      (\<exists>s'. imageFailed s img index = Returned s' \<and>
            images s' = splice1 (images s) index \<and>
            length (images s') + 1 = length (images s) \<and>
            notes_list s' = notes_list s @ [''Missing '' @ url img] \<and>
            previousShow s' = None \<and> showNextTimeout s' = None \<and>
            preloading (viewer s') =
              (if index = length (images s') then Some (images s' ! 0, 0)
               else Some (images s' ! index, index)))) \<and>
   (length (images s) = 1 \<longrightarrow> images (final (imageFailed s img index)) = images s)"
proof (intro conjI impI)
  assume "0 < index \<and> index < length (images s)"
  then have pos: "0 < index" and lt: "index < length (images s)" by simp_all
  define s1 where "s1 = s\<lparr>notes_list := notes_list s @ [''Missing '' @ url img]\<rparr>"
  define s2 where "s2 = removeImage s1 (Some index)"
  define s3 where "s3 = showPreloadingImageImmediatly s2"
  define k where "k = (if index = length (images s2) then 0 else int index)"
  have i1: "images s1 = images s"
    unfolding s1_def by (rule images_frame) simp_all
  with pos lt have r: "s2 = set_images s1 (splice1 (images s) index)"
    unfolding s2_def by (simp add: removeImage_inner)
  then have i2: "images s2 = splice1 (images s) index"
    by (simp add: images_set_images)
  with lt have len: "length (images s2) + 1 = length (images s)"
    by (simp add: length_splice1)
  have i3: "images s3 = images s2"
    unfolding s3_def by (rule images_showImmediately)
  from pos lt len have krange: "0 \<le> k" "k < int (length (images s3))"
    unfolding k_def i3 by auto
  have run: "imageFailed s img index = preload s3 k"
    by (simp add: imageFailed_def Let_def s1_def s2_def s3_def k_def)
  let ?s' = "(stopTimeout s3)\<lparr>viewer := viewer_preload (viewer s3) (images s3 ! nat k) (nat k)\<rparr>"
  from run krange have ret: "imageFailed s img index = Returned ?s'"
    by (simp add: preload_in_range)
  have i5: "\<And>v. images ((stopTimeout s3)\<lparr>viewer := v\<rparr>) = images s2"
    using i3 by (simp add: images_def fields_stopTimeout split: images_ref.splits)
  have i4: "images ?s' = images s2"
    by (rule i5)
  have nts: "notes_list ?s' = notes_list s @ [''Missing '' @ url img]"
    by (simp add: fields_stopTimeout s3_def showPreloadingImageImmediatly_def r
        fields_set_images s1_def)
  have prev: "previousShow ?s' = None"
    by (simp add: fields_stopTimeout s3_def showPreloadingImageImmediatly_def)
  have timer: "showNextTimeout ?s' = None"
    by (simp add: fields_stopTimeout)
  have pre: "preloading (viewer ?s') =
      (if index = length (images ?s') then Some (images ?s' ! 0, 0)
       else Some (images ?s' ! index, index))"
    by (simp add: viewer_preload_def i5 i3 k_def)
  show "\<exists>s'. imageFailed s img index = Returned s' \<and>
            images s' = splice1 (images s) index \<and>
            length (images s') + 1 = length (images s) \<and>
            notes_list s' = notes_list s @ [''Missing '' @ url img] \<and>
            previousShow s' = None \<and> showNextTimeout s' = None \<and>
            preloading (viewer s') =
              (if index = length (images s') then Some (images s' ! 0, 0)
               else Some (images s' ! index, index))"
    using ret i4 i2 len nts prev timer pre by (intro exI [of _ ?s']) simp
next
  assume one: "length (images s) = 1"
  have "images (s\<lparr>notes_list := notes_list s @ [''Missing '' @ url img]\<rparr>) = images s"
    by (rule images_frame) simp_all
  with one show "images (final (imageFailed s img index)) = images s"
    by (simp add: images_imageFailed removeImage_single)
qed

theorem imageFailed_recovers_witness:
  "(0::nat) < 1 \<and> 1 < length (images abc) \<and>
   images (final (imageFailed abc img_B 1)) = [img_A, img_C] \<and>
   notes_list (final (imageFailed abc img_B 1)) = [''Missing p/b.jpg''] \<and>
   previousShow (final (imageFailed abc img_B 1)) = None \<and>
   preloading (viewer (final (imageFailed abc img_B 1))) = Some (img_C, 1) \<and>
   length (images single) = 1 \<and> images (final (imageFailed single img_A 0)) = [img_A]"
  using imageFailed_recovers [of 1 abc img_B] imageFailed_recovers [of 0 single img_A]
  by (simp add: eval_defs abc_def single_def img_B_def)

text \<open>
  C1, as stated, fails on a collection of one image: after \<open>imageFailed\<close> for its only
  image the collection is not one shorter.
\<close>

theorem imageFailed_single_counterexample:
  "length (images (final (imageFailed single img_A 0))) + 1 \<noteq> length (images single)"
  by (simp add: imageFailed_def Let_def removeImage_def preload_def stopTimeout_def
      showPreloadingImageImmediatly_def at_index_def single_def loaded_def images_def
      viewer_preload_def)

text \<open>
  C3. With the first of the three images \<open>[A, B, C]\<close> showing, \<open>removeCurrent\<close> returns
  with the collection still \<open>[A, B, C]\<close> and with \<open>A\<close> at index \<open>0\<close> as the image the
  viewer is asked to preload: \<open>removeImage(0)\<close> returns at \<open>if (!index)\<close>.
\<close>

theorem removeCurrent_first_of_three:
  "removeCurrent (showing abc 0) =
     Returned ((showing abc 0)\<lparr>viewer := (viewer (showing abc 0))\<lparr>preloading := Some (img_A, 0)\<rparr>\<rparr>) \<and>
   images (final (removeCurrent (showing abc 0))) = [img_A, img_B, img_C]"
  by (simp add: removeCurrent_def Let_def removeImage_def preload_def stopTimeout_def
      showPreloadingImageImmediatly_def at_index_def abc_def loaded_def images_def
      viewer_preload_def showing_def)

text \<open>
  What the guard of \<open>speedUp\<close> does keep: at or below the minimum nothing changes,
  from 1000 ms upwards one step stays at or above the minimum, and a timeout that is a
  positive multiple of 500 ms never goes below it.
\<close>

lemma speedUp_at_floor: "timeout s \<le> MINIMUM_TIMEOUT \<Longrightarrow> speedUp s = s"
  by (simp add: speedUp_def)

lemma speedUp_keeps_floor:
  "MINIMUM_TIMEOUT + 500 \<le> timeout s \<Longrightarrow> MINIMUM_TIMEOUT \<le> timeout (speedUp s)"
  by (simp add: speedUp_def MINIMUM_TIMEOUT_def)

lemma speedUp_multiple_of_step:
  "0 < k \<Longrightarrow> timeout s = 500 * k \<Longrightarrow>
   \<exists>k'. 0 < k' \<and> timeout (speedUp s) = 500 * k'"
proof (cases "timeout s \<le> MINIMUM_TIMEOUT")
  case True
  assume "0 < k" "timeout s = 500 * k"
  with True show ?thesis by (auto simp: speedUp_def)
next
  case False
  assume k: "0 < k" "timeout s = 500 * k"
  with False have "1 < k" by (simp add: MINIMUM_TIMEOUT_def)
  with k False have "0 < k - 1 \<and> timeout (speedUp s) = 500 * (k - 1)"
    by (simp add: speedUp_def)
  then show ?thesis by blast
qed

lemma speedUp_repeated_on_multiples:
  "0 < k \<Longrightarrow> timeout s = 500 * k \<Longrightarrow> MINIMUM_TIMEOUT \<le> timeout ((speedUp ^^ n) s)"
proof -
  assume k: "0 < k" "timeout s = 500 * k"
  have "\<exists>k'. 0 < k' \<and> timeout ((speedUp ^^ n) s) = 500 * k'"
  proof (induction n)
    case 0
    from k show ?case by auto
  next
    case (Suc n)
    then obtain k' where "0 < k'" "timeout ((speedUp ^^ n) s) = 500 * k'" by blast
    then show ?case using speedUp_multiple_of_step by simp
  qed
  then show ?thesis by (auto simp: MINIMUM_TIMEOUT_def)
qed

lemma slowDown_speedUp:
  "MINIMUM_TIMEOUT < timeout s \<Longrightarrow> slowDown (speedUp s) = s"
  by (simp add: slowDown_def speedUp_def)

lemma speedUp_slowDown:
  "0 < timeout s \<Longrightarrow> speedUp (slowDown s) = s"
  by (simp add: slowDown_def speedUp_def MINIMUM_TIMEOUT_def)

text \<open>
  C2. From a timeout of 700 ms, which is above \<open>MINIMUM_TIMEOUT\<close>, one \<open>speedUp\<close> gives
  200 ms, which is below it: the guard compares the timeout before the step of 500 ms.
\<close>

theorem speedUp_below_minimum:
  "timeout (speedUp (loaded [img_A] 700)) = 200 \<and>
   timeout (speedUp (loaded [img_A] 700)) < MINIMUM_TIMEOUT \<and>
   MINIMUM_TIMEOUT < timeout (loaded [img_A] 700)"
  by (simp add: speedUp_def loaded_def MINIMUM_TIMEOUT_def)

text \<open>
  C4. Resuming a paused slideshow that shows the first of three images, last shown at
  time 1000 with a timeout of 5000 ms, asks the viewer to preload the second image and
  leaves \<open>previousShow\<close> at 1000; when that image has loaded at time 1200, a timer of
  4800 ms is scheduled and the first image stays on screen.
\<close>

theorem resume_keeps_previousShow:
  "paused paused_abc \<and>
   previousShow (final (togglePause paused_abc)) = Some 1000 \<and>
   preloading (viewer (final (togglePause paused_abc))) = Some (img_B, 1) \<and>
   showNextTimeout (final (imageLoaded (final (togglePause paused_abc)) img_B 1 1200 1200))
     = Some 4800 \<and>
   showIndex (viewer (final (imageLoaded (final (togglePause paused_abc)) img_B 1 1200 1200)))
     = Some 0"
  by (simp add: togglePause_def next'_def wrap_next_def viewer_nextIndex_def preload_def
      Let_def stopTimeout_def at_index_def paused_abc_def showing_def loaded_def images_def
      viewer_preload_def imageLoaded_def)

section \<open>Showing a prepared image\<close>

lemma showPreloaded_observed:
  "showIndex (viewer (final (showPreloaded s t))) = map_option snd (preloading (viewer s))"
  "previousShow (final (showPreloaded s t)) = Some t"
  "showNextTimeout (final (showPreloaded s t)) = None"
  by (simp_all add: showPreloaded_def Let_def next'_def final_preload viewer_showPreloaded_def)

text \<open>
  C5. When \<open>imageLoaded\<close> runs with \<open>previousShow\<close> absent, or with
  \<open>remainder = timeout - (now - previousShow)\<close> negative, it shows the prepared image at
  once: the viewer's current index becomes the pending one, \<open>previousShow\<close> is the time
  of the show and no timer is left. Otherwise it returns with one timer scheduled for
  exactly \<open>remainder\<close> ms and the screen unchanged, and the firing of that timer shows
  the prepared image in the same way and leaves no timer.
\<close>

theorem imageLoaded_shows_or_waits:
  "(previousShow s = None \<or> (\<exists>t. previousShow s = Some t \<and> timeout s - (now - t) < 0) \<longrightarrow>
      imageLoaded s img index now shown = showPreloaded (stopTimeout s) shown \<and>
      showIndex (viewer (final (imageLoaded s img index now shown))) =
        map_option snd (preloading (viewer s)) \<and>
      previousShow (final (imageLoaded s img index now shown)) = Some shown \<and>
      showNextTimeout (final (imageLoaded s img index now shown)) = None) \<and>
   (previousShow s = Some t \<and> \<not> timeout s - (now - t) < 0 \<longrightarrow>
      (\<exists>s'. imageLoaded s img index now shown = Returned s' \<and>
            showNextTimeout s' = Some (timeout s - (now - t)) \<and>
            viewer s' = viewer s \<and> previousShow s' = Some t \<and>
            handle s' (TimerFired fired) = showPreloaded s' fired \<and>
            showIndex (viewer (final (handle s' (TimerFired fired)))) =
              map_option snd (preloading (viewer s)) \<and>
            previousShow (final (handle s' (TimerFired fired))) = Some fired \<and>
            showNextTimeout (final (handle s' (TimerFired fired))) = None))"
proof (intro conjI impI)
  assume now: "previousShow s = None \<or> (\<exists>t. previousShow s = Some t \<and> timeout s - (now - t) < 0)"
  then show eq: "imageLoaded s img index now shown = showPreloaded (stopTimeout s) shown"
    by (auto simp: imageLoaded_def Let_def fields_stopTimeout)
  show "showIndex (viewer (final (imageLoaded s img index now shown))) =
        map_option snd (preloading (viewer s))"
    by (simp add: eq showPreloaded_observed fields_stopTimeout)
  show "previousShow (final (imageLoaded s img index now shown)) = Some shown"
    by (simp add: eq showPreloaded_observed)
  show "showNextTimeout (final (imageLoaded s img index now shown)) = None"
    by (simp add: eq showPreloaded_observed)
next
  assume wait: "previousShow s = Some t \<and> \<not> timeout s - (now - t) < 0"
  let ?s' = "(stopTimeout s)\<lparr>showNextTimeout := Some (timeout s - (now - t))\<rparr>"
  from wait have "imageLoaded s img index now shown = Returned ?s'"
    by (simp add: imageLoaded_def Let_def fields_stopTimeout)
  moreover have "showNextTimeout ?s' = Some (timeout s - (now - t))" by simp
  moreover have "viewer ?s' = viewer s" by (simp add: fields_stopTimeout)
  moreover from wait have "previousShow ?s' = Some t" by (simp add: fields_stopTimeout)
  moreover have "handle ?s' (TimerFired fired) = showPreloaded ?s' fired" by simp
  moreover have "showIndex (viewer (final (handle ?s' (TimerFired fired)))) =
              map_option snd (preloading (viewer s))"
    by (simp add: showPreloaded_observed fields_stopTimeout)
  moreover have "previousShow (final (handle ?s' (TimerFired fired))) = Some fired"
    by (simp add: showPreloaded_observed)
  moreover have "showNextTimeout (final (handle ?s' (TimerFired fired))) = None"
    by (simp add: showPreloaded_observed)
  ultimately show "\<exists>s'. imageLoaded s img index now shown = Returned s' \<and>
            showNextTimeout s' = Some (timeout s - (now - t)) \<and>
            viewer s' = viewer s \<and> previousShow s' = Some t \<and>
            handle s' (TimerFired fired) = showPreloaded s' fired \<and>
            showIndex (viewer (final (handle s' (TimerFired fired)))) =
              map_option snd (preloading (viewer s)) \<and>
            previousShow (final (handle s' (TimerFired fired))) = Some fired \<and>
            showNextTimeout (final (handle s' (TimerFired fired))) = None"
    by blast
qed

theorem imageLoaded_shows_or_waits_witness:
  "previousShow started = None \<and>
   showIndex (viewer (final (imageLoaded started img_A 0 0 0))) = Some 0 \<and>
   previousShow first_shown = Some 0 \<and> \<not> timeout first_shown - (200 - 0) < 0 \<and>
   showNextTimeout (final (imageLoaded first_shown img_B 1 200 200)) = Some 800 \<and>
   showIndex (viewer (final (imageLoaded first_shown img_B 1 200 200))) = Some 0 \<and>
   showIndex (viewer (final (handle (final (imageLoaded first_shown img_B 1 200 200))
                                (TimerFired 1000)))) = Some 1 \<and>
   timeout first_shown - (1500 - 0) < 0 \<and>
   showIndex (viewer (final (imageLoaded first_shown img_B 1 1500 1500))) = Some 1"
  using imageLoaded_shows_or_waits [where s = started and img = img_A and index = 0
      and now = 0 and shown = 0 and t = 0 and fired = 0]
    imageLoaded_shows_or_waits [where s = first_shown and img = img_B and index = 1
      and now = 200 and shown = 200 and t = 0 and fired = 1000]
    imageLoaded_shows_or_waits [where s = first_shown and img = img_B and index = 1
      and now = 1500 and shown = 1500 and t = 0 and fired = 0]
  by (simp add: eval_defs started_def first_shown_def configLoaded_def)

section \<open>The index cycle\<close>

lemma wrap_next_mod:
  assumes "0 \<le> j" "j < int n"
  shows "wrap_next (j + 1) n = (j + 1) mod int n"
proof (cases "j + 1 = int n")
  case True
  then show ?thesis by (simp add: wrap_next_def)
next
  case False
  with assms show ?thesis by (simp add: wrap_next_def)
qed

lemma wrap_next_funpow:
  assumes "0 \<le> j" "j < int n"
  shows "((\<lambda>j. wrap_next (j + 1) n) ^^ k) j = (j + int k) mod int n"
proof (induction k)
  case 0
  from assms show ?case by simp
next
  case (Suc k)
  from assms have "0 < int n" by simp
  then have "0 \<le> (j + int k) mod int n" "(j + int k) mod int n < int n"
    by simp_all
  then have "wrap_next ((j + int k) mod int n + 1) n = ((j + int k) mod int n + 1) mod int n"
    by (rule wrap_next_mod)
  also have "\<dots> = (j + int k + 1) mod int n"
    by (rule mod_add_left_eq)
  also have "j + int k + 1 = j + int (Suc k)"
    by simp
  finally show ?case using Suc by simp
qed

text \<open>
  C8. In a non-empty collection, for every index in range: taking the next index
  (current plus one, \<open>0\<close> when that reaches the length) as many times as the collection
  is long leads back to the index; the previous index (current minus one, length minus
  one when that is negative) of the next index is the index, and the next of the previous
  is the index; and these are the indices \<open>next\<close> and \<open>previous\<close> preload when the
  viewer shows that index.
\<close>

theorem next_index_cycles:
  assumes "images s \<noteq> []" "i < length (images s)"
  shows "((\<lambda>j. wrap_next (j + 1) (length (images s))) ^^ length (images s)) (int i) = int i \<and>
         wrap_previous (wrap_next (int i + 1) (length (images s)) - 1) (length (images s)) = int i \<and>
         wrap_next (wrap_previous (int i - 1) (length (images s)) + 1) (length (images s)) = int i \<and>
         next' (showing s i) =
           preload (showing s i) (wrap_next (int i + 1) (length (images s))) \<and>
         previous (showing s i) =
           preload (showing s i) (wrap_previous (int i - 1) (length (images s)))"
proof (intro conjI)
  from assms(2) have "((\<lambda>j. wrap_next (j + 1) (length (images s))) ^^ length (images s)) (int i)
      = (int i + int (length (images s))) mod int (length (images s))"
    by (intro wrap_next_funpow) simp_all
  with assms(2) show "((\<lambda>j. wrap_next (j + 1) (length (images s))) ^^ length (images s)) (int i)
      = int i"
    by simp
  from assms(2) show
    "wrap_previous (wrap_next (int i + 1) (length (images s)) - 1) (length (images s)) = int i"
    by (auto simp: wrap_next_def wrap_previous_def)
  from assms(2) show
    "wrap_next (wrap_previous (int i - 1) (length (images s)) + 1) (length (images s)) = int i"
    by (auto simp: wrap_next_def wrap_previous_def)
  have im: "images (showing s i) = images s"
    by (rule images_frame) (simp_all add: showing_def)
  show "next' (showing s i) = preload (showing s i) (wrap_next (int i + 1) (length (images s)))"
    by (simp add: next'_def im) (simp add: showing_def viewer_nextIndex_def)
  show "previous (showing s i) =
          preload (showing s i) (wrap_previous (int i - 1) (length (images s)))"
    by (simp add: previous_def im) (simp add: showing_def viewer_previousIndex_def)
qed

theorem next_index_cycles_witness:
  "images abc \<noteq> [] \<and> 1 < length (images abc) \<and>
   wrap_next (wrap_next (wrap_next (1 + 1) 3 + 1) 3 + 1) 3 = 1 \<and>
   wrap_previous (wrap_next (1 + 1) 3 - 1) 3 = 1 \<and>
   wrap_next (wrap_previous (1 - 1) 3 + 1) 3 = 1 \<and>
   wrap_next (2 + 1) 3 = 0 \<and> wrap_previous (0 - 1) 3 = 2"
  using next_index_cycles [of abc 1]
  by (simp add: abc_def loaded_def images_def wrap_next_def wrap_previous_def)

section \<open>Notes\<close>

lemma findIndex_from_none:
  "(findIndex_from p xs k = - 1) = (\<forall>x \<in> set xs. \<not> p x)" if "0 \<le> k"
  using that
proof (induction xs arbitrary: k)
  case Nil
  show ?case by simp
next
  case (Cons x xs)
  from Cons.prems have "0 \<le> k + 1" by simp
  from Cons.IH [OF this] Cons.prems show ?case by auto
qed

lemma findIndex_none: "(findIndex p xs = - 1) = (\<forall>x \<in> set xs. \<not> p x)"
  by (simp add: findIndex_def findIndex_from_none)

lemma addNote_current:
  "currentImage s = Some img \<Longrightarrow>
   addNote s = (if url img \<in> set (notes_list s) then Returned s
                else Returned (s\<lparr>notes_list := notes_list s @ [url img]\<rparr>))"
  by (auto simp: addNote_def currentImage_def Let_def findIndex_none split: option.splits)

lemma notes_removeImage: "notes_list (removeImage s idx) = notes_list s"
  using removeImage_cases [of s idx] by (auto simp: fields_set_images)

lemma notes_imageFailed:
  "notes_list (final (imageFailed s img i)) = notes_list s @ [''Missing '' @ url img]"
  by (simp add: imageFailed_def Let_def final_preload showPreloadingImageImmediatly_def
      notes_removeImage)

lemma currentImage_notes: "currentImage (s\<lparr>notes_list := ns\<rparr>) = currentImage s"
proof -
  have "images (s\<lparr>notes_list := ns\<rparr>) = images s"
    by (rule images_frame) simp_all
  then show ?thesis by (simp add: currentImage_def split: option.splits)
qed

text \<open>
  C9. With a current image: \<open>addNote\<close> returns the slideshow as it was when the url of
  the image is already noted, and appends the url at the end otherwise; a second
  \<open>addNote\<close> changes nothing. \<open>resetNotes\<close> empties the notes. \<open>imageFailed\<close> appends
  \<open>Missing <url>\<close> whatever the notes hold; that string differs from the url, and after it
  has been appended \<open>addNote\<close> for the same url still appends the url.
\<close>

theorem note_ledger:
  "(currentImage s = Some img \<and> url img \<in> set (notes_list s) \<longrightarrow> addNote s = Returned s) \<and>
   (currentImage s = Some img \<and> url img \<notin> set (notes_list s) \<longrightarrow>
      addNote s = Returned (s\<lparr>notes_list := notes_list s @ [url img]\<rparr>)) \<and>
   (currentImage s = Some img \<longrightarrow>
      addNote (final (addNote s)) = Returned (final (addNote s))) \<and>
   notes_list (resetNotes s) = [] \<and>
   notes_list (final (imageFailed s img i)) = notes_list s @ [''Missing '' @ url img] \<and>
   ''Missing '' @ url img \<noteq> url img \<and>
   (currentImage s = Some img \<and> url img \<notin> set (notes_list s) \<longrightarrow>
      notes_list (final (addNote (s\<lparr>notes_list := notes_list s @ [''Missing '' @ url img]\<rparr>)))
        = notes_list s @ [''Missing '' @ url img, url img])"
proof (intro conjI impI)
  assume "currentImage s = Some img \<and> url img \<in> set (notes_list s)"
  then show "addNote s = Returned s" by (simp add: addNote_current)
next
  assume "currentImage s = Some img \<and> url img \<notin> set (notes_list s)"
  then show "addNote s = Returned (s\<lparr>notes_list := notes_list s @ [url img]\<rparr>)"
    by (simp add: addNote_current)
next
  assume c: "currentImage s = Some img"
  show "addNote (final (addNote s)) = Returned (final (addNote s))"
  proof (cases "url img \<in> set (notes_list s)")
    case True
    with c show ?thesis by (simp add: addNote_current)
  next
    case False
    from c have "currentImage (s\<lparr>notes_list := notes_list s @ [url img]\<rparr>) = Some img"
      by (simp add: currentImage_notes)
    then have "addNote (s\<lparr>notes_list := notes_list s @ [url img]\<rparr>)
        = Returned (s\<lparr>notes_list := notes_list s @ [url img]\<rparr>)"
      by (simp add: addNote_current)
    with c False show ?thesis by (simp add: addNote_current)
  qed
next
  show "notes_list (resetNotes s) = []" by (simp add: resetNotes_def)
next
  show "notes_list (final (imageFailed s img i)) = notes_list s @ [''Missing '' @ url img]"
    by (rule notes_imageFailed)
next
  have "length (''Missing '' @ url img) \<noteq> length (url img)" by simp
  then show "''Missing '' @ url img \<noteq> url img" by metis
next
  assume a: "currentImage s = Some img \<and> url img \<notin> set (notes_list s)"
  have ne: "''Missing '' @ url img \<noteq> url img"
  proof
    assume "''Missing '' @ url img = url img"
    then have "length (''Missing '' @ url img) = length (url img)" by simp
    then show False by simp
  qed
  from a have "currentImage (s\<lparr>notes_list := notes_list s @ [''Missing '' @ url img]\<rparr>)
      = Some img"
    by (simp add: currentImage_notes)
  with a ne show "notes_list (final (addNote (s\<lparr>notes_list := notes_list s @ [''Missing '' @ url img]\<rparr>)))
        = notes_list s @ [''Missing '' @ url img, url img]"
    by (simp add: addNote_current eq_commute [of "url img"])
qed

theorem note_ledger_witness:
  "currentImage (showing abc 0) = Some img_A \<and>
   url img_A \<notin> set (notes_list (showing abc 0)) \<and>
   notes_list (final (addNote (showing abc 0))) = [''p/a.jpg''] \<and>
   url img_A \<in> set (notes_list (final (addNote (showing abc 0)))) \<and>
   currentImage (final (addNote (showing abc 0))) = Some img_A \<and>
   notes_list (final (addNote (final (addNote (showing abc 0))))) = [''p/a.jpg''] \<and>
   notes_list (final (addNote (final (imageFailed (showing abc 0) img_A 0))))
     = [''Missing p/a.jpg'', ''p/a.jpg'']"
  using note_ledger [of "showing abc 0" img_A 0]
    note_ledger [of "final (addNote (showing abc 0))" img_A 0]
  by (simp add: eval_defs abc_def img_A_def currentImage_def addNote_def findIndex_def)

section \<open>Focus mode\<close>

lemma findIndex_from_range:
  "\<exists>x \<in> set xs. p x \<Longrightarrow>
   k \<le> findIndex_from p xs k \<and> findIndex_from p xs k < k + int (length xs)"
proof (induction xs arbitrary: k)
  case Nil
  then show ?case by simp
next
  case (Cons x xs)
  show ?case
  proof (cases "p x")
    case True
    then show ?thesis by simp
  next
    case False
    with Cons.prems have "\<exists>x \<in> set xs. p x" by simp
    from Cons.IH [OF this, of "k + 1"] False show ?thesis by simp
  qed
qed

lemma findIndex_range:
  "\<exists>x \<in> set xs. p x \<Longrightarrow> 0 \<le> findIndex p xs \<and> findIndex p xs < int (length xs)"
  using findIndex_from_range [of xs p 0] by (simp add: findIndex_def)

lemma strip_last_segment_no_slash:
  "CHR ''/'' \<notin> set u \<Longrightarrow> strip_last_segment u = u"
  by (induction u) auto

lemma spec_path_prefix_no_slash: "CHR ''/'' \<notin> set u \<Longrightarrow> spec_path_prefix u = []"
  by (cases u) auto

lemma spec_path_prefix_strip:
  "CHR ''/'' \<in> set u \<Longrightarrow> spec_path_prefix u = strip_last_segment u @ ''/''"
  by (induction u) (auto simp: spec_path_prefix_no_slash)

lemma startsWith_append: "startsWith u (p @ q) \<Longrightarrow> startsWith u p"
  by (induction u p rule: startsWith.induct) auto

lemma spec_focus_set_subset:
  "CHR ''/'' \<in> set (url c) \<Longrightarrow> set (spec_focus_set c imgs) \<subseteq> set (focus_set c imgs)"
  by (auto simp: spec_focus_set_def focus_set_def spec_path_prefix_strip
      intro: startsWith_append)

text \<open>
  C6, as amended. Outside focus mode and with a current image, \<open>toggleFocusMode\<close>
  returns with the collection set to exactly the configured images whose url starts with
  the current url cut before its final \<open>/\<close> (the whole url when it has no \<open>/\<close>), in
  the configured order, with the configured images untouched. That prefix is the
  specification's path prefix without its final \<open>/\<close>. Without a current image
  \<open>toggleFocusMode\<close> returns the slideshow as it was.
\<close>

theorem enter_focus_mode:
  "(\<not> inFocusMode s \<and> currentImage s = Some current \<longrightarrow>
      (\<exists>s'. toggleFocusMode s = Returned s' \<and>
            images s' = focus_set current (config_images s) \<and>
            config_images s' = config_images s \<and> inFocusMode s')) \<and>
   (CHR ''/'' \<in> set (url current) \<longrightarrow>
      spec_path_prefix (url current) = strip_last_segment (url current) @ ''/'') \<and>
   (CHR ''/'' \<notin> set (url current) \<longrightarrow> strip_last_segment (url current) = url current) \<and>
   (currentImage s = None \<longrightarrow> toggleFocusMode s = Returned s)"
proof (intro conjI impI)
  assume a: "\<not> inFocusMode s \<and> currentImage s = Some current"
  let ?imgs = "focus_set current (config_images s)"
  let ?s3 = "(stopTimeout s)\<lparr>viewer := viewer_cancelPreload (viewer s), imagesRef := Own ?imgs\<rparr>"
  let ?ci = "findIndex (\<lambda>i. url i = url current) ?imgs"
  let ?k = "if ?ci = int (length ?imgs) - 1 then 0 else ?ci + 1"
  have im3: "images ?s3 = ?imgs" by (simp add: images_def)
  from a have eq: "toggleFocusMode s = preload ?s3 ?k"
    unfolding toggleFocusMode_def Let_def
    by (simp add: inFocusMode_def fields_stopTimeout focus_set_def images_def)
  from a have "images s = config_images s"
    by (simp add: inFocusMode_def images_def)
  with a have "current \<in> set (config_images s)"
    using currentImage_mem by fastforce
  then have mem: "current \<in> set ?imgs" by (rule focus_set_mem)
  then have "\<exists>x \<in> set ?imgs. url x = url current" by blast
  then have "0 \<le> ?ci \<and> ?ci < int (length ?imgs)" by (rule findIndex_range)
  then have "0 \<le> ?k" "?k < int (length (images ?s3))"
    unfolding im3 by auto
  then have "preload ?s3 ?k =
      Returned ((stopTimeout ?s3)\<lparr>viewer :=
         viewer_preload (viewer ?s3) (images ?s3 ! nat ?k) (nat ?k)\<rparr>)"
    by (rule preload_in_range)
  with eq obtain s' where r: "toggleFocusMode s = Returned s'"
    and s': "s' = (stopTimeout ?s3)\<lparr>viewer :=
         viewer_preload (viewer ?s3) (images ?s3 ! nat ?k) (nat ?k)\<rparr>"
    by simp
  have "imagesRef s' = Own ?imgs" unfolding s' by (simp add: fields_stopTimeout)
  then have "images s' = ?imgs" "inFocusMode s'"
    by (simp_all add: images_def inFocusMode_def)
  moreover have "config_images s' = config_images s"
    unfolding s' by (simp add: fields_stopTimeout)
  ultimately show "\<exists>s'. toggleFocusMode s = Returned s' \<and>
            images s' = focus_set current (config_images s) \<and>
            config_images s' = config_images s \<and> inFocusMode s'"
    using r by blast
next
  assume "CHR ''/'' \<in> set (url current)"
  then show "spec_path_prefix (url current) = strip_last_segment (url current) @ ''/''"
    by (rule spec_path_prefix_strip)
next
  assume "CHR ''/'' \<notin> set (url current)"
  then show "strip_last_segment (url current) = url current"
    by (rule strip_last_segment_no_slash)
next
  assume "currentImage s = None"
  then show "toggleFocusMode s = Returned s" by (simp add: toggleFocusMode_def)
qed

theorem enter_focus_mode_witness:
  "\<not> inFocusMode (showing abc 0) \<and> currentImage (showing abc 0) = Some img_A \<and>
   images (final (toggleFocusMode (showing abc 0))) = [img_A, img_B] \<and>
   config_images (final (toggleFocusMode (showing abc 0))) = [img_A, img_B, img_C] \<and>
   CHR ''/'' \<in> set (url img_A) \<and> spec_path_prefix (url img_A) = ''p/'' \<and>
   strip_last_segment (url img_A) = ''p'' \<and>
   CHR ''/'' \<notin> set ''a.jpg'' \<and> strip_last_segment ''a.jpg'' = ''a.jpg'' \<and>
   currentImage abc = None \<and> toggleFocusMode abc = Returned abc"
  using enter_focus_mode [of "showing abc 0" img_A] enter_focus_mode [of abc img_A]
    enter_focus_mode [of abc "img_A\<lparr>url := ''a.jpg''\<rparr>"]
  by (simp add: eval_defs abc_def img_A_def img_B_def img_C_def currentImage_def
      inFocusMode_def toggleFocusMode_def findIndex_def focus_set_def)

text \<open>
  C6, as stated, fails for the configured images \<open>a/b/x.jpg\<close> and \<open>a/bc/y.jpg\<close> with
  the first one showing: the images sharing the path prefix \<open>a/b/\<close> are the first one
  only, and focus mode keeps both.
\<close>

theorem enter_focus_mode_counterexample:
  "\<not> inFocusMode xy \<and> currentImage xy = Some img_X \<and>
   spec_focus_set img_X (config_images xy) = [img_X] \<and>
   images (final (toggleFocusMode xy)) = [img_X, img_Y] \<and>
   images (final (toggleFocusMode xy)) \<noteq> spec_focus_set img_X (config_images xy)"
  by (simp add: eval_defs xy_def img_X_def img_Y_def currentImage_def
      inFocusMode_def toggleFocusMode_def findIndex_def spec_focus_set_def)

section \<open>The monolithic version on the same points\<close>

text \<open>
  The older class has the same guard in its \<open>+\<close> handler, removes the first image when
  it is the current one, clears \<open>previousShow\<close> when it resumes, and shares the wrap-around
  of the indices and the branches of \<open>imageLoaded\<close>.
\<close>

lemmas mono_defs =
  loadConfig_def DEFAULT_TIMEOUT_def MINIMUM_TIMEOUT_def mono_stopTimeout_def mono_preload_def
  mono_preload_index_def mono_showPreloadingImageImmediatly_def mono_removeCurrent_def
  start_def mono_previous_def mono_next_def showNext_def mono_imageLoaded_def
  mono_imageFailed_def keydown_def mono_abc_def at_index_def splice1_def Let_def

lemma mono_plus_key_below_minimum:
  "MINIMUM_TIMEOUT < m_timeout mono_abc \<and> m_timeout (final (keydown mono_abc 61)) = 200"
  by (simp add: mono_defs)

lemma mono_plus_key_at_floor:
  "m_timeout s \<le> MINIMUM_TIMEOUT \<Longrightarrow> keydown s 61 = Returned s"
  by (simp add: keydown_def)

lemma mono_delete_first_of_three:
  "mono_removeCurrent mono_abc = Returned (mono_abc\<lparr>m_images := [img_B, img_C]\<rparr>)"
  by (simp add: mono_defs)

lemma mono_removeCurrent_single:
  "length (m_images s) \<le> 1 \<Longrightarrow> mono_removeCurrent s = Returned s"
  by (simp add: mono_removeCurrent_def)

lemma mono_fields_preload:
  "m_previousShow (final (mono_preload s i)) = m_previousShow s"
  "m_images (final (mono_preload s i)) = m_images s"
  "m_index (final (mono_preload s i)) = m_index s"
  "m_showNextTimeout (final (mono_preload s i)) = None"
  by (simp_all add: mono_preload_def mono_stopTimeout_def Let_def split: option.splits)

lemma mono_resume_clears_previousShow:
  "m_showNextTimeout s = None \<Longrightarrow> m_previousShow (final (keydown s 32)) = None"
  by (simp add: keydown_def mono_preload_index_def mono_fields_preload
      mono_showPreloadingImageImmediatly_def mono_stopTimeout_def split: option.splits)

lemma mono_next_previous_wrap:
  "m_index s = Some i \<Longrightarrow>
   mono_next s = mono_preload s (wrap_next (int i + 1) (length (m_images s))) \<and>
   mono_previous s = mono_preload s (wrap_previous (int i - 1) (length (m_images s)))"
  by (auto simp: mono_next_def mono_previous_def wrap_next_def wrap_previous_def Let_def)

lemma mono_loaded_branches:
  assumes "m_preloadIndex s = Some p" "p < length (m_images s)"
  shows "m_previousShow s = None \<Longrightarrow> mono_imageLoaded s now shown = showNext s shown"
    and "m_previousShow s = Some t \<Longrightarrow> m_timeout s - (now - t) < 0 \<Longrightarrow>
         mono_imageLoaded s now shown = showNext s shown"
    and "m_previousShow s = Some t \<Longrightarrow> \<not> m_timeout s - (now - t) < 0 \<Longrightarrow>
         mono_imageLoaded s now shown =
           Returned (s\<lparr>m_showNextTimeout := Some (m_timeout s - (now - t))\<rparr>)"
  using assms by (simp_all add: mono_imageLoaded_def at_index_def Let_def)

end
